theory Spec2Isabelle
  imports Complex_Main
begin

section \<open>The star-field visualizer: a shallow embedding of star\_visualizer.py\<close>

text \<open>
  Python floats are idealised as the reals: rounding, infinities and NaN are outside
  this model. Python's unbounded integers are \<^typ>\<open>int\<close>; indices produced by
  \<^verbatim>\<open>range\<close> are natural numbers.
\<close>

subsection \<open>Configuration constants\<close>

definition WIDTH :: real where "WIDTH = 1920"
definition HEIGHT :: real where "HEIGHT = 1080"
definition FPS :: real where "FPS = 30"
definition BPM :: real where "BPM = 85"
definition BEAT_DURATION :: real where "BEAT_DURATION = 60 / BPM"
definition STARS_PER_GROUP :: nat where "STARS_PER_GROUP = 7"
definition BASE_SPEED :: real where "BASE_SPEED = 3"
definition MAX_SPEED :: real where "MAX_SPEED = 8"
definition SCREEN_DIAGONAL :: real where "SCREEN_DIAGONAL = sqrt (WIDTH ^ 2 + HEIGHT ^ 2)"

subsection \<open>Python primitives\<close>

datatype py_error = IndexError | ZeroDivisionError

text \<open>\<^verbatim>\<open>int(x)\<close> on a float truncates toward zero.\<close>

definition py_int :: "real \<Rightarrow> int" where
  "py_int x = (if 0 \<le> x then \<lfloor>x\<rfloor> else \<lceil>x\<rceil>)"

text \<open>\<^verbatim>\<open>xs[i]\<close>: a negative index counts from the end, out of range raises.\<close>

definition py_index :: "'a list \<Rightarrow> int \<Rightarrow> py_error + 'a" where
  "py_index xs i =
     (if 0 \<le> i \<and> i < int (length xs) then Inr (xs ! nat i)
      else if i < 0 \<and> - int (length xs) \<le> i then Inr (xs ! nat (int (length xs) + i))
      else Inl IndexError)"

text \<open>
  The random source is the sequence of values that successive calls of
  \<^verbatim>\<open>random.random()\<close> return, with a cursor counting the draws made so far.
  \<^verbatim>\<open>random.uniform(a, b)\<close> is \<^verbatim>\<open>a + (b - a) * random()\<close>.
\<close>

record rand_src =
  samples :: "nat \<Rightarrow> real"
  cursor :: nat

definition random_random :: "rand_src \<Rightarrow> real \<times> rand_src" where
  "random_random rs = (samples rs (cursor rs), rs\<lparr>cursor := Suc (cursor rs)\<rparr>)"

definition uniform :: "real \<Rightarrow> real \<Rightarrow> rand_src \<Rightarrow> real \<times> rand_src" where
  "uniform a b rs = (case random_random rs of (r, rs') \<Rightarrow> (a + (b - a) * r, rs'))"

text \<open>The contract of \<^verbatim>\<open>random.random()\<close>: every draw lies in [0, 1).\<close>

definition unit_draws :: "rand_src \<Rightarrow> bool" where
  "unit_draws rs = (\<forall>n. 0 \<le> samples rs n \<and> samples rs n < 1)"

subsection \<open>Data model\<close>

record star =
  angle_offset :: real
  dist_offset :: real
  pulse_phase :: real

text \<open>The dictionary key \<^verbatim>\<open>'stars'\<close> of a connection is the field \<open>conn_stars\<close>.\<close>

record connection =
  conn_stars :: "nat \<times> nat"
  alpha :: real
  active :: bool

text \<open>The attribute \<^verbatim>\<open>id\<close> of a group is the field \<open>group_id\<close>.\<close>

record star_group =
  group_id :: int
  stars :: "star list"
  connections :: "connection list"
  angle :: real
  speed :: real
  distance :: real

subsection \<open>StarGroup.reset\<close>

definition make_star :: "rand_src \<Rightarrow> star \<times> rand_src" where
  "make_star rs =
     (case uniform (- 1) 1 rs of (ao, rs1) \<Rightarrow>
      case uniform 1 2 rs1 of (dof, rs2) \<Rightarrow>
      case uniform 0 (2 * pi) rs2 of (pp, rs3) \<Rightarrow>
        (\<lparr>angle_offset = ao, dist_offset = dof, pulse_phase = pp\<rparr>, rs3))"

text \<open>The loop \<^verbatim>\<open>for _ in range(STARS_PER_GROUP)\<close>, appending one star per round.\<close>

fun make_stars :: "nat \<Rightarrow> star list \<Rightarrow> rand_src \<Rightarrow> star list \<times> rand_src" where
  "make_stars 0 ss rs = (ss, rs)"
| "make_stars (Suc n) ss rs =
     (case make_star rs of (s, rs') \<Rightarrow> make_stars n (ss @ [s]) rs')"

text \<open>The inner loop \<^verbatim>\<open>for j in range(i + 1, len(self.stars))\<close>.\<close>

fun connect_inner ::
  "nat \<Rightarrow> nat list \<Rightarrow> connection list \<Rightarrow> rand_src \<Rightarrow> connection list \<times> rand_src" where
  "connect_inner i [] cs rs = (cs, rs)"
| "connect_inner i (j # js) cs rs =
     (case random_random rs of (r, rs') \<Rightarrow>
        connect_inner i js
          (if r < 0.35 then cs @ [\<lparr>conn_stars = (i, j), alpha = 0, active = False\<rparr>] else cs)
          rs')"

text \<open>The outer loop \<^verbatim>\<open>for i in range(len(self.stars))\<close>.\<close>

fun connect_outer ::
  "nat \<Rightarrow> nat list \<Rightarrow> connection list \<Rightarrow> rand_src \<Rightarrow> connection list \<times> rand_src" where
  "connect_outer n [] cs rs = (cs, rs)"
| "connect_outer n (i # is) cs rs =
     (case connect_inner i [Suc i..<n] cs rs of (cs', rs') \<Rightarrow> connect_outer n is cs' rs')"

definition reset :: "star_group \<Rightarrow> rand_src \<Rightarrow> star_group \<times> rand_src" where
  "reset g rs =
     (case uniform 0 (2 * pi) rs of (a, rs1) \<Rightarrow>
      case uniform 0 200 rs1 of (d, rs2) \<Rightarrow>
      case make_stars STARS_PER_GROUP [] rs2 of (ss, rs3) \<Rightarrow>
      case connect_outer (length ss) [0..<length ss] [] rs3 of (cs, rs4) \<Rightarrow>
        (g\<lparr>stars := ss, connections := cs, angle := a, speed := BASE_SPEED, distance := d\<rparr>,
         rs4))"

subsection \<open>StarGroup.\_\_init\_\_\<close>

definition StarGroup_init :: "int \<Rightarrow> rand_src \<Rightarrow> star_group \<times> rand_src" where
  "StarGroup_init gid rs =
     (case uniform 0 (2 * pi) rs of (a, rs1) \<Rightarrow>
      case uniform 0 200 rs1 of (d, rs2) \<Rightarrow>
        reset \<lparr>group_id = gid, stars = [], connections = [], angle = a,
               speed = BASE_SPEED, distance = d\<rparr> rs2)"

subsection \<open>StarGroup.update\<close>

definition alpha_change :: real where
  "alpha_change = 255 * BPM / (60 * FPS)"

definition beat_index :: "real \<Rightarrow> int" where
  "beat_index time = py_int (time / BEAT_DURATION)"

text \<open>The body of the loop \<^verbatim>\<open>for conn in self.connections\<close>.\<close>

definition update_conn :: "int \<Rightarrow> connection \<Rightarrow> connection" where
  "update_conn bi conn =
     (let conn1 =
        (if bi mod 2 = 0 \<and> \<not> active conn then conn\<lparr>active := True, alpha := 0\<rparr>
         else if bi mod 2 = 1 \<and> active conn then conn\<lparr>active := False\<rparr>
         else conn)
      in if active conn1 then conn1\<lparr>alpha := min 255 (alpha conn1 + alpha_change)\<rparr>
         else conn1\<lparr>alpha := max 0 (alpha conn1 - alpha_change)\<rparr>)"

text \<open>Lines 92--96: the new speed, then the distance advanced by it.\<close>

definition advance :: "star_group \<Rightarrow> star_group" where
  "advance g =
     (let distance_ratio = distance g / SCREEN_DIAGONAL;
          g1 = g\<lparr>speed := BASE_SPEED + (MAX_SPEED - BASE_SPEED) * distance_ratio ^ 3\<rparr>
      in g1\<lparr>distance := distance g1 + speed g1\<rparr>)"

definition center_x :: "star_group \<Rightarrow> real" where
  "center_x g = WIDTH / 2 + cos (angle g) * distance g"

definition center_y :: "star_group \<Rightarrow> real" where
  "center_y g = HEIGHT / 2 + sin (angle g) * distance g"

text \<open>The test of lines 103--104.\<close>

definition off_screen :: "star_group \<Rightarrow> bool" where
  "off_screen g =
     (center_x g < - 100 \<or> center_x g > WIDTH + 100 \<or>
      center_y g < - 100 \<or> center_y g > HEIGHT + 100)"

definition update :: "star_group \<Rightarrow> real \<Rightarrow> real \<Rightarrow> rand_src \<Rightarrow> star_group \<times> rand_src" where
  "update g time vocal_energy rs =
     (let g2 = advance g
      in if off_screen g2 then reset g2 rs
         else (g2\<lparr>connections := map (update_conn (beat_index time)) (connections g2)\<rparr>, rs))"

subsection \<open>The energy lookup of create\_frame\<close>



subsection \<open>Sequences of calls on one group\<close>

datatype call = Update real real | Reset

fun do_call :: "star_group \<times> rand_src \<Rightarrow> call \<Rightarrow> star_group \<times> rand_src" where
  "do_call (g, rs) (Update t e) = update g t e rs"
| "do_call (g, rs) Reset = reset g rs"

definition run :: "star_group \<times> rand_src \<Rightarrow> call list \<Rightarrow> star_group \<times> rand_src" where
  "run st calls = foldl do_call st calls"

subsection \<open>The sample index as the specification words it\<close>


subsection \<open>Notions used to state the properties\<close>

text \<open>The random source after \<open>n\<close> further draws.\<close>

definition after_draws :: "nat \<Rightarrow> rand_src \<Rightarrow> rand_src" where
  "after_draws n rs = rs\<lparr>cursor := cursor rs + n\<rparr>"

definition new_conn :: "nat \<Rightarrow> nat \<Rightarrow> connection" where
  "new_conn i j = \<lparr>conn_stars = (i, j), alpha = 0, active = False\<rparr>"

definition star_ok :: "star \<Rightarrow> bool" where
  "star_ok s =
     (- 1 \<le> angle_offset s \<and> angle_offset s \<le> 1 \<and>
      1 \<le> dist_offset s \<and> dist_offset s \<le> 2 \<and>
      0 \<le> pulse_phase s \<and> pulse_phase s < 2 * pi)"

text \<open>The number of star pairs \<open>(i, j)\<close> with \<open>i\<close> from the list and \<open>i < j < n\<close>.\<close>

fun pair_count :: "nat \<Rightarrow> nat list \<Rightarrow> nat" where
  "pair_count n [] = 0"
| "pair_count n (i # is) = (n - Suc i) + pair_count n is"

text \<open>Concrete inputs: a source whose every draw is 1/4, and a group to reset.\<close>

definition quarter_src :: rand_src where
  "quarter_src = \<lparr>samples = (\<lambda>n. 1 / 4), cursor = 0\<rparr>"

definition blank_group :: star_group where
  "blank_group = \<lparr>group_id = 0, stars = [], connections = [], angle = 0,
     speed = 0, distance = 1000\<rparr>"

text \<open>The index invariant of a group's connections.\<close>

definition indices_ok :: "star_group \<Rightarrow> bool" where
  "indices_ok g =
     (\<forall>c\<in>set (connections g).
        fst (conn_stars c) < snd (conn_stars c) \<and> snd (conn_stars c) < length (stars g))"

text \<open>What the renderer does with a connection: \<^verbatim>\<open>group.stars[i]\<close>, \<^verbatim>\<open>group.stars[j]\<close>.\<close>

definition endpoints :: "star_group \<Rightarrow> connection \<Rightarrow> py_error + star \<times> star" where
  "endpoints g c =
     (case conn_stars c of (i, j) \<Rightarrow>
        (case py_index (stars g) (int i) of
           Inl e \<Rightarrow> Inl e
         | Inr star1 \<Rightarrow>
             (case py_index (stars g) (int j) of
                Inl e \<Rightarrow> Inl e
              | Inr star2 \<Rightarrow> Inr (star1, star2))))"

text \<open>A concrete sequence of calls: a frame, an explicit reset, another frame.\<close>

definition sample_calls :: "call list" where
  "sample_calls = [Update 0 0, Reset, Update (1 / 30) 0]"

text \<open>
  The canvas rectangle expanded by a 100-pixel margin on every side, as the
  specification words it.
\<close>

definition in_expanded_canvas :: "real \<Rightarrow> real \<Rightarrow> bool" where
  "in_expanded_canvas x y =
     (- 100 \<le> x \<and> x \<le> WIDTH + 100 \<and> - 100 \<le> y \<and> y \<le> HEIGHT + 100)"

text \<open>A group far to the right of the canvas centre.\<close>

definition far_group :: star_group where
  "far_group = \<lparr>group_id = 1, stars = [], connections = [], angle = 0,
     speed = 3, distance = 1100\<rparr>"

text \<open>An update call whose timestamp falls in an even beat.\<close>

fun even_beat_update :: "call \<Rightarrow> bool" where
  "even_beat_update (Update t e) = (beat_index t mod 2 = 0)"
| "even_beat_update Reset = False"

text \<open>The first \<open>n\<close> frames of the video, at \<open>FPS\<close> frames per second.\<close>

definition first_frames :: "nat \<Rightarrow> call list" where
  "first_frames n = map (\<lambda>i. Update (real i / FPS) 0) [0..<n]"

section \<open>Properties\<close>

subsection \<open>The random source and reset\<close>

lemma after_draws_0: "after_draws 0 rs = rs"
  by (simp add: after_draws_def)

lemma after_draws_add: "after_draws m (after_draws n rs) = after_draws (n + m) rs"
  by (simp add: after_draws_def add.assoc)

lemma samples_after_draws: "samples (after_draws n rs) = samples rs"
  by (simp add: after_draws_def)

lemma cursor_after_draws: "cursor (after_draws n rs) = cursor rs + n"
  by (simp add: after_draws_def)

lemma unit_draws_after: "unit_draws (after_draws n rs) = unit_draws rs"
  by (simp add: unit_draws_def samples_after_draws)

lemma random_random_eq:
  "random_random rs = (samples rs (cursor rs), after_draws 1 rs)"
  by (simp add: random_random_def after_draws_def)

lemma uniform_eq:
  "uniform a b rs = (a + (b - a) * samples rs (cursor rs), after_draws 1 rs)"
  by (simp add: uniform_def random_random_eq)

lemma make_star_eq:
  "make_star rs =
     (\<lparr>angle_offset = - 1 + 2 * samples rs (cursor rs),
       dist_offset = 1 + samples rs (cursor rs + 1),
       pulse_phase = 2 * pi * samples rs (cursor rs + 2)\<rparr>, after_draws 3 rs)"
  by (simp add: make_star_def uniform_eq after_draws_add samples_after_draws
      cursor_after_draws)

lemma make_star_ok:
  assumes "unit_draws rs"
  shows "star_ok (fst (make_star rs))"
proof -
  have a: "0 \<le> samples rs (cursor rs)" "samples rs (cursor rs) < 1"
    and b: "0 \<le> samples rs (cursor rs + 1)" "samples rs (cursor rs + 1) < 1"
    and c: "0 \<le> samples rs (cursor rs + 2)" "samples rs (cursor rs + 2) < 1"
    using assms by (simp_all add: unit_draws_def)
  have "2 * pi * samples rs (cursor rs + 2) < 2 * pi * 1"
    using c by (intro mult_strict_left_mono) simp_all
  then show ?thesis
    using a b c by (simp add: make_star_eq star_ok_def)
qed

lemma make_stars_snd: "snd (make_stars n ss rs) = after_draws (3 * n) rs"
  by (induction n arbitrary: ss rs)
     (simp_all add: after_draws_0 make_star_eq after_draws_add)

lemma make_stars_length: "length (fst (make_stars n ss rs)) = length ss + n"
  by (induction n arbitrary: ss rs) (simp_all add: make_star_eq)

lemma make_stars_ok:
  "unit_draws rs \<Longrightarrow> \<forall>s\<in>set ss. star_ok s \<Longrightarrow>
   \<forall>s\<in>set (fst (make_stars n ss rs)). star_ok s"
proof (induction n arbitrary: ss rs)
  case 0
  then show ?case by simp
next
  case (Suc n)
  obtain s rs' where ms: "make_star rs = (s, rs')" by (cases "make_star rs")
  have ok: "star_ok s" using make_star_ok [OF Suc.prems(1)] ms by simp
  have rs': "rs' = after_draws 3 rs" using ms by (simp add: make_star_eq)
  have "\<forall>s\<in>set (fst (make_stars n (ss @ [s]) rs')). star_ok s"
    using Suc.prems ok rs' by (intro Suc.IH) (simp_all add: unit_draws_after)
  then show ?case using ms by simp
qed

lemma connect_inner_snd:
  "snd (connect_inner i js cs rs) = after_draws (length js) rs"
  by (induction js arbitrary: cs rs)
     (simp_all add: after_draws_0 random_random_eq after_draws_add)

lemma connect_inner_pres:
  "\<forall>c\<in>set cs. Q c \<Longrightarrow> \<forall>j\<in>set js. Q (new_conn i j) \<Longrightarrow>
   \<forall>c\<in>set (fst (connect_inner i js cs rs)). Q c"
proof (induction js arbitrary: cs rs)
  case Nil
  then show ?case by simp
next
  case (Cons j js)
  let ?cs = "if samples rs (cursor rs) < 0.35 then cs @ [new_conn i j] else cs"
  have "\<forall>c\<in>set ?cs. Q c" using Cons.prems by simp
  then have "\<forall>c\<in>set (fst (connect_inner i js ?cs (after_draws 1 rs))). Q c"
    using Cons.prems by (intro Cons.IH) simp_all
  then show ?case by (simp add: random_random_eq new_conn_def)
qed

lemma connect_outer_snd:
  "snd (connect_outer n is cs rs) = after_draws (pair_count n is) rs"
proof (induction "is" arbitrary: cs rs)
  case Nil
  then show ?case by (simp add: after_draws_0)
next
  case (Cons i "is")
  obtain cs' rs' where ci: "connect_inner i [Suc i..<n] cs rs = (cs', rs')"
    by (cases "connect_inner i [Suc i..<n] cs rs")
  have "rs' = after_draws (n - Suc i) rs"
    using connect_inner_snd [of i "[Suc i..<n]" cs rs] ci by simp
  then show ?case using ci Cons.IH [of cs' rs'] by (simp add: after_draws_add)
qed

lemma connect_outer_pres:
  "\<forall>c\<in>set cs. Q c \<Longrightarrow> \<forall>i\<in>set is. \<forall>j\<in>set [Suc i..<n]. Q (new_conn i j) \<Longrightarrow>
   \<forall>c\<in>set (fst (connect_outer n is cs rs)). Q c"
proof (induction "is" arbitrary: cs rs)
  case Nil
  then show ?case by simp
next
  case (Cons i "is")
  obtain cs' rs' where ci: "connect_inner i [Suc i..<n] cs rs = (cs', rs')"
    by (cases "connect_inner i [Suc i..<n] cs rs")
  have "\<forall>c\<in>set (fst (connect_inner i [Suc i..<n] cs rs)). Q c"
    using Cons.prems by (intro connect_inner_pres) simp_all
  then have "\<forall>c\<in>set cs'. Q c" using ci by simp
  then have "\<forall>c\<in>set (fst (connect_outer n is cs' rs')). Q c"
    using Cons.prems by (intro Cons.IH) simp_all
  then show ?case using ci by simp
qed

lemma pair_count_7: "pair_count 7 [0..<7] = 21"
  by (simp add: upt_rec)

text \<open>\<open>reset\<close> in terms of its parts: 44 draws in all.\<close>

lemma reset_eq:
  "reset g rs =
     (g\<lparr>stars := fst (make_stars STARS_PER_GROUP [] (after_draws 2 rs)),
        connections := fst (connect_outer STARS_PER_GROUP [0..<STARS_PER_GROUP] []
                              (after_draws (2 + 3 * STARS_PER_GROUP) rs)),
        angle := 2 * pi * samples rs (cursor rs),
        speed := BASE_SPEED,
        distance := 200 * samples rs (cursor rs + 1)\<rparr>,
      after_draws 44 rs)"
proof -
  obtain ss rs3 where ms: "make_stars STARS_PER_GROUP [] (after_draws 2 rs) = (ss, rs3)"
    by (cases "make_stars STARS_PER_GROUP [] (after_draws 2 rs)")
  have len: "length ss = STARS_PER_GROUP"
    using make_stars_length [of STARS_PER_GROUP "[]" "after_draws 2 rs"] ms by simp
  have rs3: "rs3 = after_draws (2 + 3 * STARS_PER_GROUP) rs"
    using make_stars_snd [of STARS_PER_GROUP "[]" "after_draws 2 rs"] ms
    by (simp add: after_draws_add)
  obtain cs rs4 where co:
    "connect_outer STARS_PER_GROUP [0..<STARS_PER_GROUP] [] rs3 = (cs, rs4)"
    by (cases "connect_outer STARS_PER_GROUP [0..<STARS_PER_GROUP] [] rs3")
  have rs4: "rs4 = after_draws 44 rs"
    using connect_outer_snd [of STARS_PER_GROUP "[0..<STARS_PER_GROUP]" "[]" rs3] co rs3
      pair_count_7
    by (simp add: after_draws_add STARS_PER_GROUP_def)
  show ?thesis
    using ms len co rs3 rs4
    by (simp add: reset_def uniform_eq after_draws_add samples_after_draws
        cursor_after_draws numeral_2_eq_2)
qed

subsection \<open>The energy argument and the energy lookup\<close>

text \<open>
  C7. \<open>update\<close> ignores its energy argument: for every group state, timestamp and
  random source, two calls that differ only in the energy return the same group state
  and leave the random source in the same state.
\<close>

theorem update_energy_noninterference:
  "update g t e1 rs = update g t e2 rs"
  by (simp add: update_def)




subsection \<open>The postcondition of reset\<close>

lemma reset_stars_ok:
  "unit_draws rs \<Longrightarrow> \<forall>s\<in>set (stars (fst (reset g rs))). star_ok s"
  using make_stars_ok [of "after_draws 2 rs" "[]" STARS_PER_GROUP]
  by (simp add: reset_eq unit_draws_after)

lemma reset_stars_length: "length (stars (fst (reset g rs))) = STARS_PER_GROUP"
  using make_stars_length [of STARS_PER_GROUP "[]" "after_draws 2 rs"]
  by (simp add: reset_eq)

lemma reset_conns_pres:
  "\<forall>i<STARS_PER_GROUP. \<forall>j<STARS_PER_GROUP. i < j \<longrightarrow> Q (new_conn i j) \<Longrightarrow>
   \<forall>c\<in>set (connections (fst (reset g rs))). Q c"
  using connect_outer_pres [of "[]" Q "[0..<STARS_PER_GROUP]" STARS_PER_GROUP
      "after_draws (2 + 3 * STARS_PER_GROUP) rs"]
  by (simp add: reset_eq)

lemma reset_conns_fresh:
  "\<forall>c\<in>set (connections (fst (reset g rs))). alpha c = 0 \<and> \<not> active c"
  by (rule reset_conns_pres) (simp add: new_conn_def)

lemma reset_angle_distance:
  assumes "unit_draws rs"
  shows "0 \<le> angle (fst (reset g rs))" "angle (fst (reset g rs)) < 2 * pi"
    "0 \<le> distance (fst (reset g rs))" "distance (fst (reset g rs)) < 200"
proof -
  have a: "0 \<le> samples rs (cursor rs)" "samples rs (cursor rs) < 1"
    and b: "0 \<le> samples rs (cursor rs + 1)" "samples rs (cursor rs + 1) < 1"
    using assms by (simp_all add: unit_draws_def)
  have "2 * pi * samples rs (cursor rs) < 2 * pi * 1"
    using a by (intro mult_strict_left_mono) simp_all
  then show "angle (fst (reset g rs)) < 2 * pi" by (simp add: reset_eq)
  show "0 \<le> angle (fst (reset g rs))" using a by (simp add: reset_eq)
  show "0 \<le> distance (fst (reset g rs))" using b by (simp add: reset_eq)
  show "distance (fst (reset g rs)) < 200" using b by (simp add: reset_eq)
qed

text \<open>
  C5. After every call of \<open>reset\<close>, whatever values in [0, 1) the random source
  yields: the heading is in [0, 2 pi), the distance in [0, 200], the speed is the base
  speed, there are exactly \<open>STARS_PER_GROUP\<close> stars, each with angular offset in
  [-1, 1], distance scale in [1, 2] and pulse phase in [0, 2 pi), and every connection
  has opacity 0 and is inactive.
\<close>

theorem reset_postcondition:
  assumes "unit_draws rs"
  shows "0 \<le> angle (fst (reset g rs)) \<and> angle (fst (reset g rs)) < 2 * pi \<and>
    0 \<le> distance (fst (reset g rs)) \<and> distance (fst (reset g rs)) \<le> 200 \<and>
    speed (fst (reset g rs)) = BASE_SPEED \<and>
    length (stars (fst (reset g rs))) = STARS_PER_GROUP \<and>
    (\<forall>s\<in>set (stars (fst (reset g rs))).
       - 1 \<le> angle_offset s \<and> angle_offset s \<le> 1 \<and>
       1 \<le> dist_offset s \<and> dist_offset s \<le> 2 \<and>
       0 \<le> pulse_phase s \<and> pulse_phase s < 2 * pi) \<and>
    (\<forall>c\<in>set (connections (fst (reset g rs))). alpha c = 0 \<and> \<not> active c)"
proof -
  have sp: "speed (fst (reset g rs)) = BASE_SPEED" by (simp add: reset_eq)
  have st: "\<forall>s\<in>set (stars (fst (reset g rs))).
       - 1 \<le> angle_offset s \<and> angle_offset s \<le> 1 \<and>
       1 \<le> dist_offset s \<and> dist_offset s \<le> 2 \<and>
       0 \<le> pulse_phase s \<and> pulse_phase s < 2 * pi"
    using reset_stars_ok [OF assms, of g] by (simp add: star_ok_def)
  show ?thesis
    using reset_angle_distance [OF assms, of g] sp reset_stars_length [of g rs] st
      reset_conns_fresh [of g rs]
    by simp
qed

lemma reset_quarter_stars_shifted:
  "stars (fst (reset g (after_draws k quarter_src))) =
     replicate 7 \<lparr>angle_offset = - 1 / 2, dist_offset = 5 / 4, pulse_phase = pi / 2\<rparr>"
  by (simp add: reset_eq quarter_src_def STARS_PER_GROUP_def
      eval_nat_numeral make_star_eq after_draws_def)

lemma reset_quarter_conns_shifted:
  "map conn_stars (connections (fst (reset g (after_draws k quarter_src)))) =
     [(0,1),(0,2),(0,3),(0,4),(0,5),(0,6),(1,2),(1,3),(1,4),(1,5),(1,6),
      (2,3),(2,4),(2,5),(2,6),(3,4),(3,5),(3,6),(4,5),(4,6),(5,6)]"
  by (simp add: reset_eq quarter_src_def STARS_PER_GROUP_def
      upt_rec random_random_eq after_draws_def)

lemmas reset_quarter_stars =
  reset_quarter_stars_shifted [of blank_group 0, unfolded after_draws_0]

lemmas reset_quarter_conns =
  reset_quarter_conns_shifted [of blank_group 0, unfolded after_draws_0]

theorem reset_postcondition_witness:
  "unit_draws quarter_src \<and>
   angle (fst (reset blank_group quarter_src)) = pi / 2 \<and>
   distance (fst (reset blank_group quarter_src)) = 50 \<and>
   speed (fst (reset blank_group quarter_src)) = 3 \<and>
   stars (fst (reset blank_group quarter_src)) =
     replicate 7 \<lparr>angle_offset = - 1 / 2, dist_offset = 5 / 4, pulse_phase = pi / 2\<rparr> \<and>
   length (connections (fst (reset blank_group quarter_src))) = 21 \<and>
   alpha (hd (connections (fst (reset blank_group quarter_src)))) = 0"
proof -
  have u: "unit_draws quarter_src" by (simp add: unit_draws_def quarter_src_def)
  have a: "angle (fst (reset blank_group quarter_src)) = pi / 2"
    "distance (fst (reset blank_group quarter_src)) = 50"
    by (simp_all add: reset_eq quarter_src_def)
  have l: "length (connections (fst (reset blank_group quarter_src))) = 21"
    using arg_cong [OF reset_quarter_conns, of length] by simp
  then have "hd (connections (fst (reset blank_group quarter_src)))
      \<in> set (connections (fst (reset blank_group quarter_src)))"
    by (intro hd_in_set) auto
  then show ?thesis
    using reset_postcondition [OF u, of blank_group] u a l reset_quarter_stars
    by (simp add: BASE_SPEED_def)
qed

subsection \<open>Construction\<close>

lemma reset_depends_on_id:
  "group_id g = group_id h \<Longrightarrow> fst (reset g rs) = fst (reset h rs)"
  by (cases g, cases h) (simp add: reset_eq)

lemma StarGroup_init_eq:
  "StarGroup_init gid rs =
     reset \<lparr>group_id = gid, stars = [], connections = [],
            angle = 2 * pi * samples rs (cursor rs), speed = BASE_SPEED,
            distance = 200 * samples rs (cursor rs + 1)\<rparr> (after_draws 2 rs)"
  by (simp add: StarGroup_init_def uniform_eq after_draws_def)

text \<open>
  C10. Construction draws a heading and a distance and then resets, which overwrites
  both: the constructed group is the one a bare reset of any group with the same id
  produces from the source shifted by two draws; construction makes 46 draws where a
  reset makes 44; and the constructed group satisfies the postcondition of reset
  (distance in [0, 200], base speed, \<open>STARS_PER_GROUP\<close> stars, every connection with
  opacity 0 and inactive).
\<close>

theorem init_establishes_reset_postcondition:
  "StarGroup_init gid rs =
     reset \<lparr>group_id = gid, stars = [], connections = [],
            angle = 2 * pi * samples rs (cursor rs), speed = BASE_SPEED,
            distance = 200 * samples rs (cursor rs + 1)\<rparr> (after_draws 2 rs) \<and>
   (group_id g = gid \<longrightarrow>
      fst (StarGroup_init gid rs) = fst (reset g (after_draws 2 rs))) \<and>
   snd (reset g rs) = after_draws 44 rs \<and>
   snd (StarGroup_init gid rs) = after_draws 46 rs \<and>
   cursor (snd (StarGroup_init gid rs)) = cursor (snd (reset g rs)) + 2 \<and>
   (unit_draws rs \<longrightarrow>
      0 \<le> distance (fst (StarGroup_init gid rs)) \<and>
      distance (fst (StarGroup_init gid rs)) \<le> 200) \<and>
   speed (fst (StarGroup_init gid rs)) = BASE_SPEED \<and>
   length (stars (fst (StarGroup_init gid rs))) = STARS_PER_GROUP \<and>
   (\<forall>c\<in>set (connections (fst (StarGroup_init gid rs))). alpha c = 0 \<and> \<not> active c)"
proof -
  let ?g0 = "\<lparr>group_id = gid, stars = [], connections = [],
            angle = 2 * pi * samples rs (cursor rs), speed = BASE_SPEED,
            distance = 200 * samples rs (cursor rs + 1)\<rparr>"
  have eq: "StarGroup_init gid rs = reset ?g0 (after_draws 2 rs)"
    by (rule StarGroup_init_eq)
  have same: "fst (StarGroup_init gid rs) = fst (reset g (after_draws 2 rs))"
    if "group_id g = gid"
    unfolding eq using that by (intro reset_depends_on_id) simp
  have s1: "snd (reset g rs) = after_draws 44 rs" by (simp add: reset_eq)
  have s2: "snd (StarGroup_init gid rs) = after_draws 46 rs"
    unfolding eq by (simp add: reset_eq after_draws_add)
  have cur: "cursor (snd (StarGroup_init gid rs)) = cursor (snd (reset g rs)) + 2"
    unfolding s1 s2 by (simp add: cursor_after_draws)
  have dist: "0 \<le> distance (fst (StarGroup_init gid rs)) \<and>
      distance (fst (StarGroup_init gid rs)) \<le> 200" if u: "unit_draws rs"
  proof -
    have "unit_draws (after_draws 2 rs)" using u by (simp add: unit_draws_after)
    from reset_angle_distance(3,4) [OF this, of ?g0] show ?thesis
      unfolding eq by simp
  qed
  have sp: "speed (fst (StarGroup_init gid rs)) = BASE_SPEED"
    unfolding eq by (simp add: reset_eq)
  have len: "length (stars (fst (StarGroup_init gid rs))) = STARS_PER_GROUP"
    unfolding eq by (rule reset_stars_length)
  have fresh: "\<forall>c\<in>set (connections (fst (StarGroup_init gid rs))). alpha c = 0 \<and> \<not> active c"
    unfolding eq by (rule reset_conns_fresh)
  show ?thesis
    using eq same s1 s2 cur dist sp len fresh by blast
qed

theorem init_establishes_reset_postcondition_witness:
  "unit_draws quarter_src \<and>
   fst (StarGroup_init 0 quarter_src) = fst (reset blank_group (after_draws 2 quarter_src)) \<and>
   cursor (snd (StarGroup_init 0 quarter_src)) = 46 \<and>
   cursor (snd (reset blank_group quarter_src)) = 44 \<and>
   distance (fst (StarGroup_init 0 quarter_src)) = 50 \<and>
   speed (fst (StarGroup_init 0 quarter_src)) = 3 \<and>
   length (stars (fst (StarGroup_init 0 quarter_src))) = 7 \<and>
   length (connections (fst (StarGroup_init 0 quarter_src))) = 21 \<and>
   alpha (hd (connections (fst (StarGroup_init 0 quarter_src)))) = 0 \<and>
   \<not> active (hd (connections (fst (StarGroup_init 0 quarter_src))))"
proof -
  have u: "unit_draws quarter_src" by (simp add: unit_draws_def quarter_src_def)
  have gid: "group_id blank_group = 0" by (simp add: blank_group_def)
  note th = init_establishes_reset_postcondition [of 0 quarter_src blank_group]
  have same: "fst (StarGroup_init 0 quarter_src) =
      fst (reset blank_group (after_draws 2 quarter_src))"
    using th gid by blast
  have l: "length (connections (fst (StarGroup_init 0 quarter_src))) = 21"
    using arg_cong [OF reset_quarter_conns_shifted [of blank_group 2], of length] same
    by simp
  then have "hd (connections (fst (StarGroup_init 0 quarter_src)))
      \<in> set (connections (fst (StarGroup_init 0 quarter_src)))"
    by (intro hd_in_set) auto
  moreover have "distance (fst (StarGroup_init 0 quarter_src)) = 50"
    unfolding same by (simp add: reset_eq quarter_src_def after_draws_def)
  moreover have "snd (StarGroup_init 0 quarter_src) = after_draws 46 quarter_src"
    "snd (reset blank_group quarter_src) = after_draws 44 quarter_src"
    using th by blast+
  then have "cursor (snd (StarGroup_init 0 quarter_src)) = 46"
    "cursor (snd (reset blank_group quarter_src)) = 44"
    by (simp_all add: cursor_after_draws quarter_src_def)
  moreover have "speed (fst (StarGroup_init 0 quarter_src)) = BASE_SPEED"
    "length (stars (fst (StarGroup_init 0 quarter_src))) = STARS_PER_GROUP"
    "\<forall>c\<in>set (connections (fst (StarGroup_init 0 quarter_src))). alpha c = 0 \<and> \<not> active c"
    using th by blast+
  ultimately show ?thesis
    using u same l by (simp add: BASE_SPEED_def STARS_PER_GROUP_def)
qed

subsection \<open>Motion\<close>

lemma SCREEN_DIAGONAL_lower: "2202 \<le> SCREEN_DIAGONAL"
  unfolding SCREEN_DIAGONAL_def WIDTH_def HEIGHT_def
  by (rule real_le_rsqrt) simp

lemma SCREEN_DIAGONAL_pos: "0 < SCREEN_DIAGONAL"
  using SCREEN_DIAGONAL_lower by simp

lemma advance_unchanged [simp]:
  "stars (advance g) = stars g" "connections (advance g) = connections g"
  "angle (advance g) = angle g" "group_id (advance g) = group_id g"
  by (simp_all add: advance_def Let_def)

lemma speed_advance:
  "speed (advance g) =
     BASE_SPEED + (MAX_SPEED - BASE_SPEED) * (distance g / SCREEN_DIAGONAL) ^ 3"
  by (simp add: advance_def Let_def)

lemma distance_advance: "distance (advance g) = distance g + speed (advance g)"
  by (simp add: advance_def Let_def)

lemma speed_advance_lower:
  assumes "0 \<le> distance g"
  shows "BASE_SPEED \<le> speed (advance g)"
proof -
  have "0 \<le> distance g / SCREEN_DIAGONAL"
    using assms SCREEN_DIAGONAL_pos by simp
  then have "0 \<le> (distance g / SCREEN_DIAGONAL) ^ 3" by simp
  then have "0 \<le> (MAX_SPEED - BASE_SPEED) * (distance g / SCREEN_DIAGONAL) ^ 3"
    by (simp add: MAX_SPEED_def BASE_SPEED_def)
  then show ?thesis by (simp add: speed_advance)
qed

lemma speed_advance_upper:
  assumes "0 \<le> distance g" "distance g \<le> SCREEN_DIAGONAL"
  shows "speed (advance g) \<le> MAX_SPEED"
proof -
  have r: "0 \<le> distance g / SCREEN_DIAGONAL" "distance g / SCREEN_DIAGONAL \<le> 1"
    using assms SCREEN_DIAGONAL_pos by simp_all
  then have "(distance g / SCREEN_DIAGONAL) ^ 3 \<le> 1" by (rule power_le_one)
  then have "(MAX_SPEED - BASE_SPEED) * (distance g / SCREEN_DIAGONAL) ^ 3
      \<le> (MAX_SPEED - BASE_SPEED) * 1"
    by (intro mult_left_mono) (simp_all add: MAX_SPEED_def BASE_SPEED_def)
  then show ?thesis by (simp add: speed_advance)
qed

lemma near_center_on_screen:
  assumes "0 \<le> distance g" "distance g \<le> 632"
  shows "\<not> off_screen (advance g)"
proof -
  let ?d = "distance (advance g)"
  have "distance g \<le> SCREEN_DIAGONAL" using assms SCREEN_DIAGONAL_lower by simp
  from speed_advance_upper [OF assms(1) this] speed_advance_lower [OF assms(1)]
  have d: "0 \<le> ?d" "?d \<le> 640"
    using assms by (simp_all add: distance_advance MAX_SPEED_def BASE_SPEED_def)
  have "\<bar>cos (angle g) * ?d\<bar> \<le> 1 * ?d"
    unfolding abs_mult using d by (intro mult_mono) simp_all
  then have c: "- 640 \<le> cos (angle g) * ?d" "cos (angle g) * ?d \<le> 640"
    using d by linarith+
  have "\<bar>sin (angle g) * ?d\<bar> \<le> 1 * ?d"
    unfolding abs_mult using d by (intro mult_mono) simp_all
  then have s: "- 640 \<le> sin (angle g) * ?d" "sin (angle g) * ?d \<le> 640"
    using d by linarith+
  show ?thesis
    using c s by (simp add: off_screen_def center_x_def center_y_def WIDTH_def HEIGHT_def)
qed

subsection \<open>The two paths of update\<close>

lemma update_on_screen:
  "\<not> off_screen (advance g) \<Longrightarrow>
   update g t e rs =
     ((advance g)\<lparr>connections := map (update_conn (beat_index t)) (connections g)\<rparr>, rs)"
  by (simp add: update_def Let_def)

lemma update_off_screen:
  "off_screen (advance g) \<Longrightarrow> update g t e rs = reset (advance g) rs"
  by (simp add: update_def Let_def)

lemma alpha_change_value: "alpha_change = 289 / 24"
  by (simp add: alpha_change_def BPM_def FPS_def)

lemma conn_stars_update_conn [simp]: "conn_stars (update_conn b c) = conn_stars c"
  by (simp add: update_conn_def Let_def)

lemma active_update_conn: "active (update_conn b c) = (b mod 2 = 0)"
  by (cases "active c") (auto simp: update_conn_def Let_def)

lemma alpha_update_conn:
  "alpha (update_conn b c) =
     (if b mod 2 = 0 then min 255 ((if active c then alpha c else 0) + alpha_change)
      else max 0 (alpha c - alpha_change))"
  by (cases "active c") (auto simp: update_conn_def Let_def)

lemma opacity_update_conn:
  "0 \<le> alpha c \<Longrightarrow> alpha c \<le> 255 \<Longrightarrow>
   0 \<le> alpha (update_conn b c) \<and> alpha (update_conn b c) \<le> 255"
  by (simp add: alpha_update_conn alpha_change_value)

subsection \<open>Sequences of calls\<close>

lemma run_Nil [simp]: "run st [] = st"
  by (simp add: run_def)

lemma run_snoc [simp]: "run st (calls @ [c]) = do_call (run st calls) c"
  by (simp add: run_def)

lemma run_invariant:
  assumes "P st" and "\<And>s c. P s \<Longrightarrow> P (do_call s c)"
  shows "P (run st calls)"
  by (induction calls rule: rev_induct) (simp_all add: assms)

lemma do_call_cases:
  obtains (reset) g' where "do_call (g, rs) c = reset g' rs"
  | (moved) t where "\<not> off_screen (advance g)"
      "do_call (g, rs) c =
        ((advance g)\<lparr>connections := map (update_conn (beat_index t)) (connections g)\<rparr>, rs)"
proof (cases c)
  case (Update t e)
  show ?thesis
  proof (cases "off_screen (advance g)")
    case True
    then show ?thesis using Update reset by (simp add: update_off_screen)
  next
    case False
    then show ?thesis using Update moved by (simp add: update_on_screen)
  qed
next
  case Reset
  then show ?thesis using reset by simp
qed

lemma samples_do_call: "samples (snd (do_call st c)) = samples (snd st)"
proof (cases st)
  case (Pair g rs)
  show ?thesis
    unfolding Pair
    by (rule do_call_cases [of g rs c]) (simp_all add: reset_eq samples_after_draws)
qed

lemma unit_draws_samples: "samples rs = samples rs' \<Longrightarrow> unit_draws rs = unit_draws rs'"
  by (simp add: unit_draws_def)

lemma unit_draws_do_call: "unit_draws (snd (do_call st c)) = unit_draws (snd st)"
  by (rule unit_draws_samples) (rule samples_do_call)

subsection \<open>Connection indices\<close>

lemma indices_ok_reset: "indices_ok (fst (reset g rs))"
proof -
  have "\<forall>c\<in>set (connections (fst (reset g rs))).
      fst (conn_stars c) < snd (conn_stars c) \<and> snd (conn_stars c) < STARS_PER_GROUP"
    by (rule reset_conns_pres) (simp add: new_conn_def)
  then show ?thesis by (simp add: indices_ok_def reset_stars_length)
qed

lemma indices_ok_do_call:
  assumes "indices_ok (fst st)"
  shows "indices_ok (fst (do_call st c))"
proof (cases st)
  case (Pair g rs)
  show ?thesis
    unfolding Pair
  proof (rule do_call_cases [of g rs c])
    fix g' assume "do_call (g, rs) c = reset g' rs"
    then show "indices_ok (fst (do_call (g, rs) c))" by (simp add: indices_ok_reset)
  next
    fix t assume "do_call (g, rs) c =
        ((advance g)\<lparr>connections := map (update_conn (beat_index t)) (connections g)\<rparr>, rs)"
    then show "indices_ok (fst (do_call (g, rs) c))"
      using assms Pair by (simp add: indices_ok_def)
  qed
qed

lemma indices_ok_run:
  "indices_ok (fst (run (StarGroup_init gid rs) calls))"
proof (rule run_invariant [where P = "\<lambda>s. indices_ok (fst s)"])
  show "indices_ok (fst (StarGroup_init gid rs))"
    by (simp add: StarGroup_init_eq indices_ok_reset)
qed (rule indices_ok_do_call)

text \<open>
  C9. After construction and any sequence of resets and updates, every connection's
  stored pair \<open>(i, j)\<close> satisfies \<open>0 \<le> i < j < star_count\<close>, where \<open>star_count\<close> is
  the length of the group's star list, so the renderer's two reads of the star list
  succeed.
\<close>

theorem connection_indices_in_bounds:
  "\<forall>c\<in>set (connections (fst (run (StarGroup_init gid rs) calls))).
     0 \<le> fst (conn_stars c) \<and> fst (conn_stars c) < snd (conn_stars c) \<and>
     snd (conn_stars c) < length (stars (fst (run (StarGroup_init gid rs) calls))) \<and>
     endpoints (fst (run (StarGroup_init gid rs) calls)) c =
       Inr (stars (fst (run (StarGroup_init gid rs) calls)) ! fst (conn_stars c),
            stars (fst (run (StarGroup_init gid rs) calls)) ! snd (conn_stars c))"
proof
  let ?g = "fst (run (StarGroup_init gid rs) calls)"
  fix c assume "c \<in> set (connections ?g)"
  then have a: "fst (conn_stars c) < snd (conn_stars c)"
    and b: "snd (conn_stars c) < length (stars ?g)"
    using indices_ok_run [of gid rs calls] by (simp_all add: indices_ok_def)
  have "endpoints ?g c = Inr (stars ?g ! fst (conn_stars c), stars ?g ! snd (conn_stars c))"
    using a b by (cases "conn_stars c") (simp add: endpoints_def py_index_def)
  then show "0 \<le> fst (conn_stars c) \<and> fst (conn_stars c) < snd (conn_stars c) \<and>
     snd (conn_stars c) < length (stars ?g) \<and>
     endpoints ?g c = Inr (stars ?g ! fst (conn_stars c), stars ?g ! snd (conn_stars c))"
    using a b by simp
qed

lemma quarter_reset_distance:
  "distance (fst (reset g (after_draws k quarter_src))) = 50"
  by (simp add: reset_eq quarter_src_def after_draws_def)

lemma quarter_run_state:
  "map conn_stars (connections (fst (run (StarGroup_init 0 quarter_src) sample_calls))) =
     [(0,1),(0,2),(0,3),(0,4),(0,5),(0,6),(1,2),(1,3),(1,4),(1,5),(1,6),
      (2,3),(2,4),(2,5),(2,6),(3,4),(3,5),(3,6),(4,5),(4,6),(5,6)] \<and>
   map active (connections (fst (run (StarGroup_init 0 quarter_src) sample_calls))) =
     replicate 21 True \<and>
   map alpha (connections (fst (run (StarGroup_init 0 quarter_src) sample_calls))) =
     replicate 21 (289 / 24) \<and>
   0 \<le> distance (fst (run (StarGroup_init 0 quarter_src) sample_calls)) \<and>
   distance (fst (run (StarGroup_init 0 quarter_src) sample_calls)) \<le> 58 \<and>
   snd (run (StarGroup_init 0 quarter_src) sample_calls) = after_draws 90 quarter_src"
proof -
  obtain g0 where st0: "StarGroup_init 0 quarter_src = (g0, after_draws 46 quarter_src)"
    and d0: "distance g0 = 50"
    using quarter_reset_distance [of _ 2]
    by (simp add: StarGroup_init_eq reset_eq after_draws_add)
  have on0: "\<not> off_screen (advance g0)"
    using d0 by (intro near_center_on_screen) simp_all
  obtain g1 where st1: "do_call (g0, after_draws 46 quarter_src) (Update 0 0) =
      (g1, after_draws 46 quarter_src)"
    using on0 by (simp add: update_on_screen)
  obtain g2 where st2: "do_call (g1, after_draws 46 quarter_src) Reset =
      (g2, after_draws 90 quarter_src)"
    and g2: "g2 = fst (reset g1 (after_draws 46 quarter_src))"
    by (simp add: reset_eq after_draws_add)
  have d2: "distance g2 = 50" unfolding g2 by (rule quarter_reset_distance)
  have on2: "\<not> off_screen (advance g2)"
    using d2 by (intro near_center_on_screen) simp_all
  have c2: "map conn_stars (connections g2) =
     [(0,1),(0,2),(0,3),(0,4),(0,5),(0,6),(1,2),(1,3),(1,4),(1,5),(1,6),
      (2,3),(2,4),(2,5),(2,6),(3,4),(3,5),(3,6),(4,5),(4,6),(5,6)]"
    unfolding g2 by (rule reset_quarter_conns_shifted)
  have b: "beat_index (1 / 30) = 0"
    by (simp add: beat_index_def py_int_def BEAT_DURATION_def BPM_def)
  have st3: "do_call (g2, after_draws 90 quarter_src) (Update (1 / 30) 0) =
      ((advance g2)\<lparr>connections := map (update_conn 0) (connections g2)\<rparr>,
       after_draws 90 quarter_src)"
    using on2 b by (simp add: update_on_screen)
  have r: "run (StarGroup_init 0 quarter_src) sample_calls =
      ((advance g2)\<lparr>connections := map (update_conn 0) (connections g2)\<rparr>,
       after_draws 90 quarter_src)"
    by (simp only: run_def sample_calls_def foldl.simps st0 st1 st2 st3)
  have len: "length (connections g2) = 21"
    using arg_cong [OF c2, of length] by simp
  have f2: "\<forall>c\<in>set (connections g2). alpha c = 0 \<and> \<not> active c"
    unfolding g2 by (rule reset_conns_fresh)
  have act: "map active (map (update_conn 0) (connections g2)) = replicate 21 True"
    using len by (intro nth_equalityI) (simp_all add: active_update_conn)
  have alp: "map alpha (map (update_conn 0) (connections g2)) = replicate 21 (289 / 24)"
    using len f2 by (intro nth_equalityI) (simp_all add: alpha_update_conn alpha_change_value)
  have "distance g2 \<le> SCREEN_DIAGONAL" using d2 SCREEN_DIAGONAL_lower by simp
  then have "speed (advance g2) \<le> MAX_SPEED" "BASE_SPEED \<le> speed (advance g2)"
    using d2 by (simp_all add: speed_advance_upper speed_advance_lower)
  then have dist: "0 \<le> distance (advance g2)" "distance (advance g2) \<le> 58"
    using d2 by (simp_all add: distance_advance MAX_SPEED_def BASE_SPEED_def)
  show ?thesis
    unfolding r using c2 act alp dist by (simp add: comp_def)
qed

theorem connection_indices_in_bounds_witness:
  "connections (fst (run (StarGroup_init 0 quarter_src) sample_calls)) \<noteq> [] \<and>
   conn_stars (hd (connections (fst (run (StarGroup_init 0 quarter_src) sample_calls))))
     = (0, 1) \<and>
   1 < length (stars (fst (run (StarGroup_init 0 quarter_src) sample_calls))) \<and>
   endpoints (fst (run (StarGroup_init 0 quarter_src) sample_calls))
     (hd (connections (fst (run (StarGroup_init 0 quarter_src) sample_calls)))) =
     Inr (stars (fst (run (StarGroup_init 0 quarter_src) sample_calls)) ! 0,
          stars (fst (run (StarGroup_init 0 quarter_src) sample_calls)) ! 1)"
proof -
  let ?g = "fst (run (StarGroup_init 0 quarter_src) sample_calls)"
  have m: "map conn_stars (connections ?g) =
     [(0,1),(0,2),(0,3),(0,4),(0,5),(0,6),(1,2),(1,3),(1,4),(1,5),(1,6),
      (2,3),(2,4),(2,5),(2,6),(3,4),(3,5),(3,6),(4,5),(4,6),(5,6)]"
    using quarter_run_state by blast
  then have ne: "connections ?g \<noteq> []" by auto
  then have h: "conn_stars (hd (connections ?g)) = (0, 1)"
    using arg_cong [OF m, of hd] by (simp add: hd_map)
  have mem: "hd (connections ?g) \<in> set (connections ?g)" using ne by simp
  from bspec [OF connection_indices_in_bounds [of 0 quarter_src sample_calls] mem]
  show ?thesis using ne h by simp
qed

subsection \<open>Connections under update\<close>

lemma update_connections:
  "\<not> off_screen (advance g) \<Longrightarrow>
   connections (fst (update g t e rs)) = map (update_conn (beat_index t)) (connections g)"
  by (simp add: update_on_screen)


lemma opacity_do_call:
  assumes "\<forall>c\<in>set (connections (fst st)). 0 \<le> alpha c \<and> alpha c \<le> 255"
  shows "\<forall>c\<in>set (connections (fst (do_call st c))). 0 \<le> alpha c \<and> alpha c \<le> 255"
proof (cases st)
  case (Pair g rs)
  show ?thesis
    unfolding Pair
  proof (rule do_call_cases [of g rs c])
    fix g' assume "do_call (g, rs) c = reset g' rs"
    then show "\<forall>x\<in>set (connections (fst (do_call (g, rs) c))). 0 \<le> alpha x \<and> alpha x \<le> 255"
      using reset_conns_fresh [of g' rs] by simp
  next
    fix t assume "do_call (g, rs) c =
        ((advance g)\<lparr>connections := map (update_conn (beat_index t)) (connections g)\<rparr>, rs)"
    then show "\<forall>x\<in>set (connections (fst (do_call (g, rs) c))). 0 \<le> alpha x \<and> alpha x \<le> 255"
      using assms Pair by (simp add: opacity_update_conn)
  qed
qed

lemma opacity_run:
  "\<forall>c\<in>set (connections (fst (run (StarGroup_init gid rs) calls))).
     0 \<le> alpha c \<and> alpha c \<le> 255"
proof (rule run_invariant
    [where P = "\<lambda>s. \<forall>c\<in>set (connections (fst s)). 0 \<le> alpha c \<and> alpha c \<le> 255"])
  show "\<forall>c\<in>set (connections (fst (StarGroup_init gid rs))). 0 \<le> alpha c \<and> alpha c \<le> 255"
    using reset_conns_fresh by (simp add: StarGroup_init_eq)
qed (rule opacity_do_call)

text \<open>
  C3. After construction and any sequence of update and reset calls every connection's
  opacity lies in [0, 255]. A reset creates connections with opacity 0. An update that
  does not reset keeps the list of connections and sets each opacity as follows, with
  \<open>delta = 255 * BPM / (60 * FPS)\<close>: a connection that is active afterwards has
  \<open>min 255 (a + delta)\<close>, where \<open>a\<close> is its old opacity, or 0 if this update
  activated it; a connection that is inactive afterwards has \<open>max 0 (a - delta)\<close>.
\<close>

theorem opacity_stays_in_range:
  "(\<forall>c\<in>set (connections (fst (run (StarGroup_init gid rs) calls))).
      0 \<le> alpha c \<and> alpha c \<le> 255) \<and>
   (\<forall>c\<in>set (connections (fst (reset g rs'))). alpha c = 0) \<and>
   (\<not> off_screen (advance g) \<longrightarrow>
      length (connections (fst (update g t e rs'))) = length (connections g) \<and>
      (\<forall>k<length (connections g).
         (active (connections (fst (update g t e rs')) ! k) \<longrightarrow>
            alpha (connections (fst (update g t e rs')) ! k) =
              min 255 ((if active (connections g ! k) then alpha (connections g ! k) else 0)
                       + 255 * BPM / (60 * FPS))) \<and>
         (\<not> active (connections (fst (update g t e rs')) ! k) \<longrightarrow>
            alpha (connections (fst (update g t e rs')) ! k) =
              max 0 (alpha (connections g ! k) - 255 * BPM / (60 * FPS)))))"
proof -
  have fresh: "\<forall>c\<in>set (connections (fst (reset g rs'))). alpha c = 0"
    using reset_conns_fresh [of g rs'] by simp
  have step: "length (connections (fst (update g t e rs'))) = length (connections g) \<and>
      (\<forall>k<length (connections g).
         (active (connections (fst (update g t e rs')) ! k) \<longrightarrow>
            alpha (connections (fst (update g t e rs')) ! k) =
              min 255 ((if active (connections g ! k) then alpha (connections g ! k) else 0)
                       + 255 * BPM / (60 * FPS))) \<and>
         (\<not> active (connections (fst (update g t e rs')) ! k) \<longrightarrow>
            alpha (connections (fst (update g t e rs')) ! k) =
              max 0 (alpha (connections g ! k) - 255 * BPM / (60 * FPS))))"
    if on: "\<not> off_screen (advance g)"
    unfolding update_connections [OF on]
    by (simp add: active_update_conn alpha_update_conn alpha_change_def)
  show ?thesis using opacity_run [of gid rs calls] fresh step by blast
qed

theorem opacity_stays_in_range_witness:
  "alpha (hd (connections (fst (run (StarGroup_init 0 quarter_src) sample_calls)))) = 289 / 24 \<and>
   alpha (hd (connections (fst (reset blank_group quarter_src)))) = 0 \<and>
   alpha (connections (fst (update (fst (run (StarGroup_init 0 quarter_src) sample_calls))
            (1 / 15) 0 (after_draws 90 quarter_src))) ! 0) = 289 / 12 \<and>
   alpha (connections (fst (update (fst (run (StarGroup_init 0 quarter_src) sample_calls))
            1 0 (after_draws 90 quarter_src))) ! 0) = 0"
proof -
  let ?g = "fst (run (StarGroup_init 0 quarter_src) sample_calls)"
  let ?rs = "after_draws 90 quarter_src"
  note th0 = opacity_stays_in_range [of 0 quarter_src sample_calls blank_group quarter_src]
  note th = opacity_stays_in_range [of 0 quarter_src sample_calls ?g ?rs]
  have ma: "map alpha (connections ?g) = replicate 21 (289 / 24)"
    and mt: "map active (connections ?g) = replicate 21 True"
    and d: "0 \<le> distance ?g" "distance ?g \<le> 58"
    using quarter_run_state by blast+
  have len: "length (connections ?g) = 21"
    using arg_cong [OF ma, of length] by simp
  have a0: "alpha (connections ?g ! 0) = 289 / 24"
    using arg_cong [OF ma, of "\<lambda>xs. xs ! 0"] len by simp
  have t0: "active (connections ?g ! 0)"
    using arg_cong [OF mt, of "\<lambda>xs. xs ! 0"] len by simp
  have h: "alpha (hd (connections ?g)) = 289 / 24"
    using a0 len by (cases "connections ?g") simp_all
  have on: "\<not> off_screen (advance ?g)"
    using d by (intro near_center_on_screen) simp_all
  have b1: "beat_index (1 / 15) = 0" and b2: "beat_index 1 = 1"
    by (simp_all add: beat_index_def py_int_def BEAT_DURATION_def BPM_def)
  have act1: "active (connections (fst (update ?g (1 / 15) 0 ?rs)) ! 0)"
    and act2: "\<not> active (connections (fst (update ?g 1 0 ?rs)) ! 0)"
    using len b1 b2 by (simp_all add: update_connections [OF on] active_update_conn)
  have l0: "length (connections (fst (reset blank_group quarter_src))) = 21"
    using arg_cong [OF reset_quarter_conns, of length] by simp
  then have "hd (connections (fst (reset blank_group quarter_src)))
      \<in> set (connections (fst (reset blank_group quarter_src)))"
    by (intro hd_in_set) auto
  then have r0: "alpha (hd (connections (fst (reset blank_group quarter_src)))) = 0"
    using th0 by blast
  have u1: "alpha (connections (fst (update ?g (1 / 15) 0 ?rs)) ! 0) = 289 / 12"
    using th [of "1 / 15" 0] on len act1 a0 t0 by (simp add: BPM_def FPS_def)
  have u2: "alpha (connections (fst (update ?g 1 0 ?rs)) ! 0) = 0"
    using th [of 1 0] on len act2 a0 t0 by (simp add: BPM_def FPS_def)
  show ?thesis using h r0 u1 u2 by simp
qed




subsection \<open>The reset test\<close>

lemma off_screen_iff:
  "off_screen g = (\<not> in_expanded_canvas (center_x g) (center_y g))"
  by (auto simp: off_screen_def in_expanded_canvas_def)

lemma reset_moves_cursor: "snd (reset g rs) \<noteq> rs"
proof
  assume "snd (reset g rs) = rs"
  then have "cursor (after_draws 44 rs) = cursor rs" by (simp add: reset_eq)
  then show False by (simp add: cursor_after_draws)
qed

text \<open>
  C4. After advancing the distance, the centre is the canvas centre plus
  \<open>(cos heading, sin heading)\<close> times the distance. If the centre lies outside the
  canvas expanded by 100 pixels on every side, update is exactly a reset of the advanced
  group, so every connection comes out fresh and the connection logic has not run. If
  the centre lies inside, no reset happens: the random source is untouched, stars and
  heading stay, and the connections are the old ones put through the activation and
  opacity step. So the random source is consumed exactly when the centre is outside.
\<close>

theorem reset_iff_center_outside:
  "center_x (advance g) = WIDTH / 2 + cos (angle g) * (distance g + speed (advance g)) \<and>
   center_y (advance g) = HEIGHT / 2 + sin (angle g) * (distance g + speed (advance g)) \<and>
   (\<not> in_expanded_canvas (center_x (advance g)) (center_y (advance g)) \<longrightarrow>
      update g t e rs = reset (advance g) rs \<and>
      (\<forall>c\<in>set (connections (fst (update g t e rs))). alpha c = 0 \<and> \<not> active c)) \<and>
   (in_expanded_canvas (center_x (advance g)) (center_y (advance g)) \<longrightarrow>
      snd (update g t e rs) = rs \<and>
      stars (fst (update g t e rs)) = stars g \<and>
      angle (fst (update g t e rs)) = angle g \<and>
      distance (fst (update g t e rs)) = distance g + speed (advance g) \<and>
      connections (fst (update g t e rs)) =
        map (update_conn (beat_index t)) (connections g)) \<and>
   (snd (update g t e rs) \<noteq> rs) =
     (\<not> in_expanded_canvas (center_x (advance g)) (center_y (advance g)))"
proof (cases "off_screen (advance g)")
  case True
  then have out: "\<not> in_expanded_canvas (center_x (advance g)) (center_y (advance g))"
    by (simp add: off_screen_iff)
  have u: "update g t e rs = reset (advance g) rs"
    using True by (rule update_off_screen)
  show ?thesis
    using out reset_conns_fresh [of "advance g" rs] reset_moves_cursor [of "advance g" rs]
    by (simp add: u center_x_def center_y_def distance_advance)
next
  case False
  then have inn: "in_expanded_canvas (center_x (advance g)) (center_y (advance g))"
    by (simp add: off_screen_iff)
  show ?thesis
    using inn
    by (simp add: update_on_screen [OF False] center_x_def center_y_def distance_advance)
qed

lemma far_group_off_screen: "off_screen (advance far_group)"
proof -
  have "BASE_SPEED \<le> speed (advance far_group)"
    by (rule speed_advance_lower) (simp add: far_group_def)
  then have "WIDTH + 100 < center_x (advance far_group)"
    by (simp add: center_x_def distance_advance far_group_def WIDTH_def BASE_SPEED_def)
  then show ?thesis by (simp add: off_screen_def)
qed

theorem reset_iff_center_outside_witness:
  "\<not> in_expanded_canvas (center_x (advance far_group)) (center_y (advance far_group)) \<and>
   update far_group 0 0 quarter_src = reset (advance far_group) quarter_src \<and>
   cursor (snd (update far_group 0 0 quarter_src)) = 44 \<and>
   distance (fst (update far_group 0 0 quarter_src)) = 50 \<and>
   in_expanded_canvas (center_x (advance (fst (StarGroup_init 0 quarter_src))))
     (center_y (advance (fst (StarGroup_init 0 quarter_src)))) \<and>
   snd (update (fst (StarGroup_init 0 quarter_src)) 0 0 (after_draws 46 quarter_src)) =
     after_draws 46 quarter_src \<and>
   length (connections (fst (update (fst (StarGroup_init 0 quarter_src)) 0 0
      (after_draws 46 quarter_src)))) = 21"
proof -
  let ?h = "fst (StarGroup_init 0 quarter_src)"
  have out: "\<not> in_expanded_canvas (center_x (advance far_group)) (center_y (advance far_group))"
    using far_group_off_screen by (simp add: off_screen_iff)
  have hd: "distance ?h = 50"
    using quarter_reset_distance [of _ 2] by (simp add: StarGroup_init_eq)
  have "\<not> off_screen (advance ?h)"
    using hd by (intro near_center_on_screen) simp_all
  then have inn: "in_expanded_canvas (center_x (advance ?h)) (center_y (advance ?h))"
    by (simp add: off_screen_iff)
  have hl: "length (connections ?h) = 21"
    using arg_cong [OF reset_quarter_conns_shifted [of _ 2], of length]
    by (simp add: StarGroup_init_eq)
  have u: "update far_group 0 0 quarter_src = reset (advance far_group) quarter_src"
    using reset_iff_center_outside [of far_group 0 0 quarter_src] out by blast
  have c: "cursor (snd (update far_group 0 0 quarter_src)) = 44"
    unfolding u by (simp add: reset_eq cursor_after_draws quarter_src_def)
  have d: "distance (fst (update far_group 0 0 quarter_src)) = 50"
    unfolding u using quarter_reset_distance [of _ 0] by (simp add: after_draws_0)
  have s: "snd (update ?h 0 0 (after_draws 46 quarter_src)) = after_draws 46 quarter_src"
    "connections (fst (update ?h 0 0 (after_draws 46 quarter_src))) =
       map (update_conn (beat_index 0)) (connections ?h)"
    using reset_iff_center_outside [of ?h 0 0 "after_draws 46 quarter_src"] inn by blast+
  show ?thesis using out u c d inn s hl by simp
qed

subsection \<open>Distance between resets\<close>

lemma update_on_screen_distance:
  assumes "0 \<le> distance g" "\<not> off_screen (advance g)"
  shows "speed (fst (update g t e rs)) =
      BASE_SPEED + (MAX_SPEED - BASE_SPEED) * (distance g / SCREEN_DIAGONAL) ^ 3"
    and "BASE_SPEED \<le> speed (fst (update g t e rs))"
    and "distance (fst (update g t e rs)) = distance g + speed (fst (update g t e rs))"
    and "distance g \<le> distance (fst (update g t e rs))"
proof -
  have u: "speed (fst (update g t e rs)) = speed (advance g)"
    "distance (fst (update g t e rs)) = distance (advance g)"
    by (simp_all add: update_on_screen [OF assms(2)])
  have lo: "BASE_SPEED \<le> speed (advance g)"
    using assms(1) by (rule speed_advance_lower)
  show "speed (fst (update g t e rs)) =
      BASE_SPEED + (MAX_SPEED - BASE_SPEED) * (distance g / SCREEN_DIAGONAL) ^ 3"
    by (simp add: u speed_advance)
  show "BASE_SPEED \<le> speed (fst (update g t e rs))" using lo by (simp add: u)
  show "distance (fst (update g t e rs)) = distance g + speed (fst (update g t e rs))"
    by (simp add: u distance_advance)
  show "distance g \<le> distance (fst (update g t e rs))"
    using lo by (simp add: u distance_advance BASE_SPEED_def)
qed

lemma distance_nonneg_do_call:
  assumes "unit_draws (snd st)" "0 \<le> distance (fst st)"
  shows "0 \<le> distance (fst (do_call st c))"
proof (cases st)
  case (Pair g rs)
  show ?thesis
    unfolding Pair
  proof (rule do_call_cases [of g rs c])
    fix g' assume "do_call (g, rs) c = reset g' rs"
    then show "0 \<le> distance (fst (do_call (g, rs) c))"
      using assms(1) Pair reset_angle_distance(3) [of rs g'] by simp
  next
    fix t assume "do_call (g, rs) c =
        ((advance g)\<lparr>connections := map (update_conn (beat_index t)) (connections g)\<rparr>, rs)"
    moreover have "BASE_SPEED \<le> speed (advance g)"
      using assms(2) Pair by (intro speed_advance_lower) simp
    ultimately show "0 \<le> distance (fst (do_call (g, rs) c))"
      using assms(2) Pair by (simp add: distance_advance BASE_SPEED_def)
  qed
qed

lemma distance_nonneg_run:
  assumes "unit_draws rs"
  shows "0 \<le> distance (fst (run (StarGroup_init gid rs) calls))"
proof -
  have "unit_draws (snd (run (StarGroup_init gid rs) calls)) \<and>
      0 \<le> distance (fst (run (StarGroup_init gid rs) calls))"
  proof (rule run_invariant
      [where P = "\<lambda>s :: star_group \<times> rand_src. unit_draws (snd s) \<and> 0 \<le> distance (fst s)"])
    have "unit_draws (after_draws 2 rs)" using assms by (simp add: unit_draws_after)
    then show "unit_draws (snd (StarGroup_init gid rs)) \<and>
        0 \<le> distance (fst (StarGroup_init gid rs))"
      using assms reset_angle_distance(3) [of "after_draws 2 rs"]
      by (simp add: StarGroup_init_eq) (simp add: reset_eq unit_draws_after)
  next
    fix s :: "star_group \<times> rand_src" and c
    assume "unit_draws (snd s) \<and> 0 \<le> distance (fst s)"
    then show "unit_draws (snd (do_call s c)) \<and> 0 \<le> distance (fst (do_call s c))"
      by (simp add: unit_draws_do_call distance_nonneg_do_call)
  qed
  then show ?thesis by simp
qed

text \<open>
  Only a reset draws from the random source, 44 values each time, so a run of calls
  that leaves the cursor where it was contains no reset: no \<open>Reset\<close> call and no
  update that went off screen.
\<close>

lemma no_reset_run:
  assumes "0 \<le> distance g"
  shows "cursor rs \<le> cursor (snd (run (g, rs) calls)) \<and>
    (cursor (snd (run (g, rs) calls)) = cursor rs \<longrightarrow>
       distance g \<le> distance (fst (run (g, rs) calls)))"
proof (induction calls rule: rev_induct)
  case Nil
  then show ?case by simp
next
  case (snoc c calls)
  obtain g1 rs1 where st: "run (g, rs) calls = (g1, rs1)"
    by (cases "run (g, rs) calls")
  have mono: "cursor rs \<le> cursor rs1" using snoc st by simp
  show ?case
  proof (rule do_call_cases [of g1 rs1 c])
    fix g' assume "do_call (g1, rs1) c = reset g' rs1"
    then have "cursor (snd (run (g, rs) (calls @ [c]))) = cursor rs1 + 44"
      using st by (simp add: reset_eq cursor_after_draws)
    then show ?thesis using mono by simp
  next
    fix t assume on: "\<not> off_screen (advance g1)"
      and mv: "do_call (g1, rs1) c =
        ((advance g1)\<lparr>connections := map (update_conn (beat_index t)) (connections g1)\<rparr>, rs1)"
    have r: "snd (do_call (g1, rs1) c) = rs1"
      "distance (fst (do_call (g1, rs1) c)) = distance (advance g1)"
      using mv by simp_all
    have "distance g \<le> distance (advance g1)" if "cursor rs1 = cursor rs"
    proof -
      have le: "distance g \<le> distance g1" using snoc st that by simp
      then have "BASE_SPEED \<le> speed (advance g1)"
        using assms by (intro speed_advance_lower) simp
      then show ?thesis using le by (simp add: distance_advance BASE_SPEED_def)
    qed
    then show ?thesis unfolding run_snoc st using mono by (simp add: r)
  qed
qed

text \<open>
  C6. An update that does not reset sets \<open>speed = base_speed + (max_speed - base_speed)
  * (distance / screen_diagonal)^3\<close>, which is at least \<open>base_speed \<ge> 0\<close> when the
  distance is non-negative, and then adds that speed to the distance, so the distance
  does not decrease. The distance of every group reached from construction is
  non-negative (for draws in [0, 1)), and over any sequence of calls without a reset
  (none draws from the random source, so the cursor stays) the distance at the end is
  at least the distance at the start.
\<close>

theorem distance_nondecreasing_between_resets:
  "(0 \<le> distance g \<and> \<not> off_screen (advance g) \<longrightarrow>
      speed (fst (update g t e rs)) =
        BASE_SPEED + (MAX_SPEED - BASE_SPEED) * (distance g / SCREEN_DIAGONAL) ^ 3 \<and>
      0 \<le> BASE_SPEED \<and> BASE_SPEED \<le> speed (fst (update g t e rs)) \<and>
      distance (fst (update g t e rs)) = distance g + speed (fst (update g t e rs)) \<and>
      distance g \<le> distance (fst (update g t e rs))) \<and>
   (unit_draws src \<longrightarrow> 0 \<le> distance (fst (run (StarGroup_init gid src) prior))) \<and>
   (0 \<le> distance g \<and> cursor (snd (run (g, rs) calls)) = cursor rs \<longrightarrow>
      distance g \<le> distance (fst (run (g, rs) calls))) \<and>
   (unit_draws src \<and>
    cursor (snd (run (run (StarGroup_init gid src) prior) calls)) =
      cursor (snd (run (StarGroup_init gid src) prior)) \<longrightarrow>
      distance (fst (run (StarGroup_init gid src) prior))
        \<le> distance (fst (run (run (StarGroup_init gid src) prior) calls)))"
proof -
  have b: "0 \<le> BASE_SPEED" by (simp add: BASE_SPEED_def)
  obtain g1 rs1 where st: "run (StarGroup_init gid src) prior = (g1, rs1)"
    by (cases "run (StarGroup_init gid src) prior")
  have reach: "distance g1 \<le> distance (fst (run (g1, rs1) calls))"
    if "unit_draws src" "cursor (snd (run (g1, rs1) calls)) = cursor rs1"
    using no_reset_run [of g1 rs1 calls] distance_nonneg_run [OF that(1), of gid prior]
      that(2) st
    by simp
  show ?thesis
    unfolding st
    using update_on_screen_distance [of g t e rs] b
      distance_nonneg_run [of src gid prior, unfolded st]
      no_reset_run [of g rs calls] reach
    by (simp only: fst_conv snd_conv) blast
qed

theorem distance_nondecreasing_between_resets_witness:
  "unit_draws quarter_src \<and>
   0 \<le> distance (fst (run (StarGroup_init 0 quarter_src) sample_calls)) \<and>
   distance (fst (StarGroup_init 0 quarter_src)) = 50 \<and>
   \<not> off_screen (advance (fst (StarGroup_init 0 quarter_src))) \<and>
   speed (fst (update (fst (StarGroup_init 0 quarter_src)) 0 0 (after_draws 46 quarter_src))) =
     3 + 5 * (50 / SCREEN_DIAGONAL) ^ 3 \<and>
   53 \<le> distance (fst (update (fst (StarGroup_init 0 quarter_src)) 0 0
          (after_draws 46 quarter_src))) \<and>
   cursor (snd (run (fst (StarGroup_init 0 quarter_src), after_draws 46 quarter_src)
          [Update 0 0, Update (1 / 30) 0])) = 46 \<and>
   50 \<le> distance (fst (run (fst (StarGroup_init 0 quarter_src), after_draws 46 quarter_src)
          [Update 0 0, Update (1 / 30) 0]))"
proof -
  let ?h = "fst (StarGroup_init 0 quarter_src)"
  let ?rs = "after_draws 46 quarter_src"
  let ?calls = "[Update 0 0, Update (1 / 30) 0]"
  have u: "unit_draws quarter_src" by (simp add: unit_draws_def quarter_src_def)
  have hd: "distance ?h = 50"
    using quarter_reset_distance [of _ 2] by (simp add: StarGroup_init_eq)
  have on: "\<not> off_screen (advance ?h)"
    using hd by (intro near_center_on_screen) simp_all
  have c: "cursor ?rs = 46" by (simp add: cursor_after_draws quarter_src_def)
  have nn: "0 \<le> distance ?h" using hd by simp
  note th = distance_nondecreasing_between_resets
    [where g = ?h and t = 0 and e = 0 and rs = ?rs and src = quarter_src and gid = 0
       and prior = sample_calls and calls = ?calls]
  have p1: "speed (fst (update ?h 0 0 ?rs)) =
        BASE_SPEED + (MAX_SPEED - BASE_SPEED) * (distance ?h / SCREEN_DIAGONAL) ^ 3"
    "BASE_SPEED \<le> speed (fst (update ?h 0 0 ?rs))"
    "distance (fst (update ?h 0 0 ?rs)) = distance ?h + speed (fst (update ?h 0 0 ?rs))"
    using th nn on by blast+
  have p2: "0 \<le> distance (fst (run (StarGroup_init 0 quarter_src) sample_calls))"
    using th u by blast
  have d1: "distance (fst (update ?h 0 0 ?rs)) \<le> 632" "0 \<le> distance (fst (update ?h 0 0 ?rs))"
    using hd speed_advance_upper [of ?h] SCREEN_DIAGONAL_lower
    by (simp_all add: update_on_screen [OF on] distance_advance speed_advance MAX_SPEED_def BASE_SPEED_def)
  then have on1: "\<not> off_screen (advance (fst (update ?h 0 0 ?rs)))"
    by (intro near_center_on_screen) simp_all
  have s1: "snd (update ?h 0 0 ?rs) = ?rs" by (simp add: update_on_screen [OF on])
  have "run (?h, ?rs) ?calls = update (fst (update ?h 0 0 ?rs)) (1 / 30) 0 ?rs"
    using s1 by (cases "update ?h 0 0 ?rs") (simp add: run_def)
  then have cur: "cursor (snd (run (?h, ?rs) ?calls)) = 46"
    using c by (simp add: update_on_screen [OF on1])
  then have "cursor (snd (run (?h, ?rs) ?calls)) = cursor ?rs" using c by simp
  then have "distance ?h \<le> distance (fst (run (?h, ?rs) ?calls))"
    using th nn by blast
  then have p3: "50 \<le> distance (fst (run (?h, ?rs) ?calls))"
    using hd by simp
  show ?thesis
    using u p2 hd on p1 cur p3 by (simp add: BASE_SPEED_def MAX_SPEED_def)
qed

subsection \<open>The fade-in of a connection\<close>

lemma ramp_step:
  assumes "0 \<le> n"
  shows "min 255 (min 255 (n * alpha_change) + alpha_change) = min 255 ((1 + n) * alpha_change)"
proof -
  have "0 \<le> alpha_change" by (simp add: alpha_change_value)
  then show ?thesis by (simp add: min_def algebra_simps)
qed

lemma cursor_run_mono: "cursor rs \<le> cursor (snd (run (g, rs) calls))"
proof (induction calls rule: rev_induct)
  case Nil
  then show ?case by simp
next
  case (snoc c calls)
  obtain g1 rs1 where st: "run (g, rs) calls = (g1, rs1)"
    by (cases "run (g, rs) calls")
  have "cursor rs1 \<le> cursor (snd (do_call (g1, rs1) c))"
    by (rule do_call_cases [of g1 rs1 c]) (simp_all add: reset_eq cursor_after_draws)
  then show ?case using snoc st by simp
qed

text \<open>Even-beat updates without a reset: the connection fades in linearly.\<close>

lemma ramp_run:
  assumes k: "k < length (connections g)" "\<not> active (connections g ! k)"
  shows "(\<forall>c\<in>set calls. even_beat_update c) \<Longrightarrow>
    cursor (snd (run (g, rs) calls)) = cursor rs \<Longrightarrow>
    snd (run (g, rs) calls) = rs \<and>
    length (connections (fst (run (g, rs) calls))) = length (connections g) \<and>
    (calls \<noteq> [] \<longrightarrow>
       active (connections (fst (run (g, rs) calls)) ! k) \<and>
       alpha (connections (fst (run (g, rs) calls)) ! k) =
         min 255 (real (length calls) * alpha_change))"
proof (induction calls rule: rev_induct)
  case Nil
  then show ?case by simp
next
  case (snoc c calls)
  obtain t e where c: "c = Update t e" and ev: "beat_index t mod 2 = 0"
    using snoc.prems(1) by (cases c) simp_all
  obtain g1 rs1 where st: "run (g, rs) calls = (g1, rs1)"
    by (cases "run (g, rs) calls")
  have mono: "cursor rs \<le> cursor rs1"
    using cursor_run_mono [of rs g calls] st by simp
  have cur: "cursor (snd (do_call (g1, rs1) c)) = cursor rs"
    using snoc.prems(2) st by simp
  have on: "\<not> off_screen (advance g1)"
  proof
    assume "off_screen (advance g1)"
    then have "cursor (snd (do_call (g1, rs1) c)) = cursor rs1 + 44"
      using c by (simp add: update_off_screen reset_eq cursor_after_draws)
    then show False using cur mono by simp
  qed
  have u: "do_call (g1, rs1) c =
      ((advance g1)\<lparr>connections := map (update_conn (beat_index t)) (connections g1)\<rparr>, rs1)"
    using on c by (simp add: update_on_screen)
  have "cursor (snd (run (g, rs) calls)) = cursor rs" using cur u st by simp
  then have ih: "rs1 = rs" "length (connections g1) = length (connections g)"
    "calls \<noteq> [] \<Longrightarrow> active (connections g1 ! k) \<and>
       alpha (connections g1 ! k) = min 255 (real (length calls) * alpha_change)"
    using snoc st by simp_all
  have kk: "k < length (connections g1)" using k ih(2) by simp
  have al: "alpha (update_conn (beat_index t) (connections g1 ! k)) =
      min 255 (real (length (calls @ [c])) * alpha_change)"
  proof (cases "calls = []")
    case True
    then have "\<not> active (connections g1 ! k)" using st k by simp
    then show ?thesis using True ev by (simp add: alpha_update_conn)
  next
    case False
    then have "active (connections g1 ! k)"
      "alpha (connections g1 ! k) = min 255 (real (length calls) * alpha_change)"
      using ih(3) by simp_all
    then show ?thesis
      using ev ramp_step [of "real (length calls)"] by (simp add: alpha_update_conn)
  qed
  show ?case
    unfolding run_snoc st u
    using ih(1,2) kk al ev
    by (simp add: active_update_conn)
qed

text \<open>A group fresh from a reset stays on screen for its first 54 updates.\<close>

lemma fresh_run_no_reset:
  assumes g: "0 \<le> distance g" "distance g \<le> 200"
  shows "(\<forall>c\<in>set calls. c \<noteq> Reset) \<Longrightarrow> length calls \<le> 54 \<Longrightarrow>
    snd (run (g, rs) calls) = rs \<and>
    0 \<le> distance (fst (run (g, rs) calls)) \<and>
    distance (fst (run (g, rs) calls)) \<le> 200 + 8 * real (length calls)"
proof (induction calls rule: rev_induct)
  case Nil
  then show ?case using g by simp
next
  case (snoc c calls)
  obtain t e where c: "c = Update t e"
    using snoc.prems(1) by (cases c) simp_all
  obtain g1 where st: "run (g, rs) calls = (g1, rs)"
    using snoc by (cases "run (g, rs) calls") simp
  have ih: "0 \<le> distance g1" "distance g1 \<le> 200 + 8 * real (length calls)"
    using snoc st by simp_all
  have n: "real (length calls) \<le> 53" using snoc.prems(2) by simp
  then have d: "distance g1 \<le> 632" using ih(2) by simp
  then have on: "\<not> off_screen (advance g1)"
    using ih(1) by (intro near_center_on_screen)
  have "distance g1 \<le> SCREEN_DIAGONAL" using d SCREEN_DIAGONAL_lower by simp
  then have sp: "speed (advance g1) \<le> 8" "3 \<le> speed (advance g1)"
    using speed_advance_upper [of g1] speed_advance_lower [of g1] ih(1)
    by (simp_all add: MAX_SPEED_def BASE_SPEED_def)
  have u: "do_call (g1, rs) c =
      ((advance g1)\<lparr>connections := map (update_conn (beat_index t)) (connections g1)\<rparr>, rs)"
    using on c by (simp add: update_on_screen)
  show ?case
    unfolding run_snoc st u using ih sp by (simp add: distance_advance)
qed

text \<open>
  C8. With BPM = 85 and FPS = 30 the opacity step is \<open>255 * 85 / 1800\<close>, between
  12.04 and 12.05, and \<open>ceil(255 / step) = 22\<close>. Take an inactive connection and
  \<open>n \<ge> 1\<close> consecutive updates in even beats, none of which resets the group (no
  draw from the random source): the first activates the connection with opacity 0, it
  stays active, and its opacity after the \<open>n\<close> updates is \<open>min 255 (n * step)\<close>,
  which is below 255 for \<open>n < 22\<close> and exactly 255 from \<open>n = 22\<close> on.
\<close>

theorem full_opacity_after_22_updates:
  assumes "k < length (connections g)" "\<not> active (connections g ! k)"
    and "\<forall>c\<in>set calls. even_beat_update c"
    and "cursor (snd (run (g, rs) calls)) = cursor rs"
    and "calls \<noteq> []"
  shows "alpha_change = 255 * 85 / 1800 \<and> 12.04 < alpha_change \<and> alpha_change < 12.05 \<and>
    \<lceil>255 / alpha_change\<rceil> = 22 \<and>
    active (connections (fst (run (g, rs) calls)) ! k) \<and>
    alpha (connections (fst (run (g, rs) calls)) ! k) =
      min 255 (real (length calls) * alpha_change) \<and>
    (alpha (connections (fst (run (g, rs) calls)) ! k) = 255) = (22 \<le> length calls) \<and>
    (alpha (connections (fst (run (g, rs) calls)) ! k) < 255) = (length calls < 22)"
proof -
  from ramp_run [OF assms(1,2), of calls rs] assms(3,4,5)
  have act: "active (connections (fst (run (g, rs) calls)) ! k)"
    and al: "alpha (connections (fst (run (g, rs) calls)) ! k) =
      min 255 (real (length calls) * alpha_change)"
    by simp_all
  have v: "alpha_change = 255 * 85 / 1800" "12.04 < alpha_change" "alpha_change < 12.05"
    by (simp_all add: alpha_change_value)
  have ce: "\<lceil>255 / alpha_change\<rceil> = 22"
    by (simp add: alpha_change_value ceiling_eq_iff)
  have below: "(min 255 (real (length calls) * alpha_change) < 255) = (length calls < 22)"
  proof (cases "length calls < 22")
    case True
    then have "real (length calls) \<le> 21" by simp
    then have "real (length calls) * (289 / 24) \<le> 21 * (289 / 24)"
      by (intro mult_right_mono) simp_all
    then show ?thesis using True by (simp add: alpha_change_value min_def)
  next
    case False
    then have "22 \<le> real (length calls)" by simp
    then have "22 * (289 / 24) \<le> real (length calls) * (289 / 24)"
      by (intro mult_right_mono) simp_all
    then show ?thesis using False by (simp add: alpha_change_value min_def)
  qed
  then have full: "(min 255 (real (length calls) * alpha_change) = 255) = (22 \<le> length calls)"
    by (auto simp: min_def)
  show ?thesis using act al v ce full below by simp
qed

lemma first_frames_even:
  assumes "n \<le> 22"
  shows "\<forall>c\<in>set (first_frames n). even_beat_update c"
proof -
  have "beat_index (real i / FPS) = 0" if "i < 22" for i :: nat
  proof -
    have "real i \<le> 21" using that by simp
    then show ?thesis
      by (simp add: beat_index_def py_int_def BEAT_DURATION_def BPM_def FPS_def
          floor_eq_iff)
  qed
  then show ?thesis using assms by (auto simp: first_frames_def)
qed

theorem full_opacity_after_22_updates_witness:
  "cursor (snd (run (fst (StarGroup_init 0 quarter_src), after_draws 46 quarter_src)
      (first_frames 22))) = 46 \<and>
   alpha (connections (fst (run (fst (StarGroup_init 0 quarter_src), after_draws 46 quarter_src)
      (first_frames 22))) ! 0) = 255 \<and>
   alpha (connections (fst (run (fst (StarGroup_init 0 quarter_src), after_draws 46 quarter_src)
      (first_frames 21))) ! 0) = 2023 / 8 \<and>
   alpha (connections (fst (run (fst (StarGroup_init 0 quarter_src), after_draws 46 quarter_src)
      (first_frames 1))) ! 0) = 289 / 24"
proof -
  let ?h = "fst (StarGroup_init 0 quarter_src)"
  let ?rs = "after_draws 46 quarter_src"
  have hd: "distance ?h = 50"
    using quarter_reset_distance [of _ 2] by (simp add: StarGroup_init_eq)
  have hl: "length (connections ?h) = 21"
    using arg_cong [OF reset_quarter_conns_shifted [of _ 2], of length]
    by (simp add: StarGroup_init_eq)
  then have "connections ?h ! 0 \<in> set (connections ?h)" by (intro nth_mem) simp
  then have hf: "\<not> active (connections ?h ! 0)"
    using reset_conns_fresh by (simp add: StarGroup_init_eq)
  have k: "0 < length (connections ?h)" using hl by simp
  have len: "length (first_frames n) = n" for n by (simp add: first_frames_def)
  have nr: "snd (run (?h, ?rs) (first_frames n)) = ?rs" if "n \<le> 22" for n
  proof -
    have "\<forall>c\<in>set (first_frames n). c \<noteq> Reset" by (auto simp: first_frames_def)
    then show ?thesis
      using fresh_run_no_reset [of ?h "first_frames n" ?rs] hd that by (simp add: len)
  qed
  have th: "alpha (connections (fst (run (?h, ?rs) (first_frames n))) ! 0) =
      min 255 (real n * alpha_change)" if "n \<le> 22" "0 < n" for n
  proof -
    have ne: "first_frames n \<noteq> []" using that(2) len [of n] by auto
    show ?thesis
      using full_opacity_after_22_updates
        [OF k hf first_frames_even [OF that(1)] _ ne, of ?rs] nr [OF that(1)]
      by (simp add: len)
  qed
  have c: "cursor (snd (run (?h, ?rs) (first_frames 22))) = 46"
    using nr [of 22] by (simp add: cursor_after_draws quarter_src_def)
  show ?thesis
    using c th [of 22] th [of 21] th [of 1] by (simp add: alpha_change_value)
qed

end
